theory Spec2Isabelle
  imports Main "HOL-Library.Word"
begin

section \<open>ParamType (binlog/NanoLogCpp.h)\<close>

text \<open>
  \<^verbatim>\<open>enum ParamType : int32_t\<close>: the enumerators are the values -6 .. 0 of a 32-bit
  integer, and every non-negative value is a string with that precision
  (\<^verbatim>\<open>ParamType(precision)\<close>). The type is modelled by the 32-bit word that
  stores it; the comparisons of the source on it are signed (\<open>\<le>s\<close>), and
  \<^verbatim>\<open>static_cast<uint32_t>(fmtType)\<close> reads the same bits as unsigned.
\<close>

type_synonym ParamType = "32 word"

definition INVALID :: ParamType where "INVALID = - 6"
definition DYNAMIC_WIDTH :: ParamType where "DYNAMIC_WIDTH = - 5"
definition DYNAMIC_PRECISION :: ParamType where "DYNAMIC_PRECISION = - 4"
definition NON_STRING :: ParamType where "NON_STRING = - 3"
definition STRING_WITH_DYNAMIC_PRECISION :: ParamType where "STRING_WITH_DYNAMIC_PRECISION = - 2"
definition STRING_WITH_NO_PRECISION :: ParamType where "STRING_WITH_NO_PRECISION = - 1"
definition STRING :: ParamType where "STRING = 0"

section \<open>Character classes (binlog/NanoLogCpp.cpp)\<close>

definition isTerminal :: "char \<Rightarrow> bool" where
  "isTerminal c \<longleftrightarrow> c = CHR ''d'' \<or> c = CHR ''i''
     \<or> c = CHR ''u'' \<or> c = CHR ''o''
     \<or> c = CHR ''x'' \<or> c = CHR ''X''
     \<or> c = CHR ''f'' \<or> c = CHR ''F''
     \<or> c = CHR ''e'' \<or> c = CHR ''E''
     \<or> c = CHR ''g'' \<or> c = CHR ''G''
     \<or> c = CHR ''a'' \<or> c = CHR ''A''
     \<or> c = CHR ''c'' \<or> c = CHR ''p''
     \<or> c = CHR ''%'' \<or> c = CHR ''s''
     \<or> c = CHR ''n''"

definition isFlag :: "char \<Rightarrow> bool" where
  "isFlag c \<longleftrightarrow> c = CHR ''-'' \<or> c = CHR ''+'' \<or> c = CHR '' '' \<or> c = CHR ''#'' \<or> c = CHR ''0''"

definition isLength :: "char \<Rightarrow> bool" where
  "isLength c \<longleftrightarrow> c = CHR ''h'' \<or> c = CHR ''l'' \<or> c = CHR ''j''
     \<or> c = CHR ''z'' \<or> c = CHR ''t'' \<or> c = CHR ''L''"

definition isDigit :: "char \<Rightarrow> bool" where
  "isDigit c \<longleftrightarrow> (of_char (CHR ''0'') :: nat) \<le> of_char c \<and> (of_char c :: nat) \<le> of_char (CHR ''9'')"

section \<open>getParamInfo\<close>

text \<open>
  The format string is a \<^verbatim>\<open>const char*\<close>: the model passes the characters that can be
  read through the pointer, as a list. \<open>at fmt pos\<close> is the read \<^verbatim>\<open>fmt[pos]\<close>; a read
  outside the list is undefined behaviour in C++ and is the error \<open>OutOfBounds pos\<close> here.
  \<open>c_str s\<close> is the memory of the C string \<open>s\<close>: its characters and the terminating NUL.

  \<^verbatim>\<open>pos\<close>, \<^verbatim>\<open>N\<close> and \<^verbatim>\<open>precision\<close> are \<^verbatim>\<open>int\<close>s. \<^verbatim>\<open>pos\<close> is only incremented
  after a successful read, and once more at the end of a specifier, so it stays within the
  length of the buffer plus one. \<^verbatim>\<open>precision\<close> grows with every digit and the loop
  that computes it has no bound: it is the 32-bit word of the \<^verbatim>\<open>int\<close>, whose arithmetic
  wraps around as the compiled code does, and \<^verbatim>\<open>ParamType(precision)\<close> is the same word.
\<close>

datatype error = OutOfBounds int

definition at :: "char list \<Rightarrow> int \<Rightarrow> error + char" where
  "at fmt pos = (if 0 \<le> pos \<and> pos < int (length fmt) then Inr (fmt ! nat pos)
                 else Inl (OutOfBounds pos))"

definition c_str :: "string \<Rightarrow> char list" where
  "c_str s = s @ [CHR 0x00]"

text \<open>
  The three loops \<^verbatim>\<open>while (isFlag(fmt[pos])) ++pos;\<close>, \<^verbatim>\<open>while (isDigit(fmt[pos])) ++pos;\<close>
  and \<^verbatim>\<open>while (isLength(fmt[pos])) ++pos;\<close>, with the character class as a parameter.
\<close>

function consume :: "(char \<Rightarrow> bool) \<Rightarrow> char list \<Rightarrow> int \<Rightarrow> error + int" where
  "consume p fmt pos =
     (case at fmt pos of
        Inl e \<Rightarrow> Inl e
      | Inr c \<Rightarrow> if p c then consume p fmt (pos + 1) else Inr pos)"
  by pat_completeness auto

text \<open>
  The loop of the literal precision:
  \<^verbatim>\<open>while (isDigit(fmt[pos])) { precision = 10 * precision + (fmt[pos] - '0'); ++pos; }\<close>
\<close>

function consume_precision :: "char list \<Rightarrow> int \<Rightarrow> 32 word \<Rightarrow> error + int \<times> 32 word" where
  "consume_precision fmt pos precision =
     (case at fmt pos of
        Inl e \<Rightarrow> Inl e
      | Inr c \<Rightarrow>
          if isDigit c
          then consume_precision fmt (pos + 1) (10 * precision + (of_char c - of_char (CHR ''0'')))
          else Inr (pos, precision))"
  by pat_completeness auto

text \<open>Consume width: a \<^verbatim>\<open>*\<close> pushes \<^verbatim>\<open>DYNAMIC_WIDTH\<close>, else a run of digits is skipped.\<close>

definition consume_width :: "char list \<Rightarrow> int \<Rightarrow> ParamType list \<Rightarrow> error + int \<times> ParamType list" where
  "consume_width fmt pos Params =
     (case at fmt pos of
        Inl e \<Rightarrow> Inl e
      | Inr c \<Rightarrow>
          if c = CHR ''*'' then Inr (pos + 1, Params @ [DYNAMIC_WIDTH])
          else (case consume isDigit fmt pos of
                  Inl e \<Rightarrow> Inl e
                | Inr pos' \<Rightarrow> Inr (pos', Params)))"

text \<open>
  Consume precision: the result is the position, the parameters, \<^verbatim>\<open>hasDynamicPrecision\<close>
  and \<^verbatim>\<open>precision\<close> (initially \<^verbatim>\<open>false\<close> and \<^verbatim>\<open>-1\<close>).
\<close>

definition consume_dot ::
  "char list \<Rightarrow> int \<Rightarrow> ParamType list \<Rightarrow> error + int \<times> ParamType list \<times> bool \<times> 32 word" where
  "consume_dot fmt pos Params =
     (case at fmt pos of
        Inl e \<Rightarrow> Inl e
      | Inr c \<Rightarrow>
          if c = CHR ''.'' then
            (case at fmt (pos + 1) of
               Inl e \<Rightarrow> Inl e
             | Inr c' \<Rightarrow>
                 if c' = CHR ''*'' then Inr (pos + 1 + 1, Params @ [DYNAMIC_PRECISION], True, - 1)
                 else (case consume_precision fmt (pos + 1) 0 of
                         Inl e \<Rightarrow> Inl e
                       | Inr (pos', precision) \<Rightarrow> Inr (pos', Params, False, precision)))
          else Inr (pos, Params, False, - 1))"

text \<open>
  Consume terminal: the three \<^verbatim>\<open>if\<close> statements of the source in a row, none of them
  leaving the specifier, and the final \<^verbatim>\<open>++pos\<close>.
\<close>

definition consume_terminal ::
  "char list \<Rightarrow> int \<Rightarrow> ParamType list \<Rightarrow> bool \<Rightarrow> 32 word \<Rightarrow> error + int \<times> ParamType list" where
  "consume_terminal fmt pos Params hasDynamicPrecision precision =
     (case at fmt pos of
        Inl e \<Rightarrow> Inl e
      | Inr c \<Rightarrow>
          let Params1 = (if \<not> isTerminal c then Params @ [INVALID] else Params);
              Params2 = (if c = CHR ''n'' then Params1 @ [INVALID] else Params1);
              Params3 =
                (if c \<noteq> CHR ''s'' then Params2 @ [NON_STRING]
                 else if hasDynamicPrecision then Params2 @ [STRING_WITH_DYNAMIC_PRECISION]
                 else if precision = - 1 then Params2 @ [STRING_WITH_NO_PRECISION]
                 else Params2 @ [precision])
          in Inr (pos + 1, Params3))"

text \<open>One specifier, from the character after the \<^verbatim>\<open>%\<close> to the one after its terminal.\<close>

definition specifier :: "char list \<Rightarrow> int \<Rightarrow> ParamType list \<Rightarrow> error + int \<times> ParamType list" where
  "specifier fmt pos Params =
     (case consume isFlag fmt pos of
        Inl e \<Rightarrow> Inl e
      | Inr pos1 \<Rightarrow>
     (case consume_width fmt pos1 Params of
        Inl e \<Rightarrow> Inl e
      | Inr (pos2, Params2) \<Rightarrow>
     (case consume_dot fmt pos2 Params2 of
        Inl e \<Rightarrow> Inl e
      | Inr (pos3, Params3, hasDynamicPrecision, precision) \<Rightarrow>
     (case consume isLength fmt pos3 of
        Inl e \<Rightarrow> Inl e
      | Inr pos4 \<Rightarrow> consume_terminal fmt pos4 Params3 hasDynamicPrecision precision))))"

text \<open>The outer loop \<^verbatim>\<open>while (pos < N - 1)\<close>.\<close>

function scan :: "char list \<Rightarrow> int \<Rightarrow> int \<Rightarrow> ParamType list \<Rightarrow> error + ParamType list" where
  "scan fmt N pos Params =
     (if pos < N - 1 then
        (case at fmt pos of
           Inl e \<Rightarrow> Inl e
         | Inr c \<Rightarrow>
             if c \<noteq> CHR ''%'' then scan fmt N (pos + 1) Params
             else
               (case at fmt (pos + 1) of
                  Inl e \<Rightarrow> Inl e
                | Inr c' \<Rightarrow>
                    if c' = CHR ''%'' then scan fmt N (pos + 1 + 1) Params
                    else
                      (case specifier fmt (pos + 1) Params of
                         Inl e \<Rightarrow> Inl e
                       | Inr (pos', Params') \<Rightarrow> scan fmt N pos' Params')))
      else Inr Params)"
  by pat_completeness auto

definition getParamInfo :: "char list \<Rightarrow> int \<Rightarrow> error + ParamType list" where
  "getParamInfo fmt N = scan fmt N 0 []"

section \<open>getArgSize\<close>

text \<open>
  The two references \<^verbatim>\<open>uint64_t& previousPrecision\<close> and \<^verbatim>\<open>size_t& stringBytes\<close>
  (\<^verbatim>\<open>stringSize\<close> in the template) are the state that a call may change; every overload
  returns its size together with the state it leaves. \<^verbatim>\<open>size_t\<close> is taken 64 bits
  wide (a 64-bit target). \<^verbatim>\<open>sizeof(void*)\<close>, \<^verbatim>\<open>sizeof(wchar_t)\<close> and \<^verbatim>\<open>sizeof(T)\<close>
  depend on the platform and on \<^verbatim>\<open>T\<close> and are parameters; \<^verbatim>\<open>sizeof(uint32_t)\<close> is 4.
\<close>

type_synonym size_t = "64 word"

record sizing =
  previousPrecision :: "64 word"
  stringBytes :: size_t

text \<open>
  \<^verbatim>\<open>strlen\<close> and \<^verbatim>\<open>wcslen\<close> of the C library: the number of elements before the first
  terminator. A string argument is the list of the elements behind its pointer.
\<close>

definition strlen :: "char list \<Rightarrow> size_t" where
  "strlen str = of_nat (length (takeWhile (\<lambda>c. c \<noteq> CHR 0x00) str))"

definition wcslen :: "'w::len word list \<Rightarrow> size_t" where
  "wcslen wstr = of_nat (length (takeWhile (\<lambda>c. c \<noteq> 0) wstr))"

text \<open>
  The template \<^verbatim>\<open>getArgSize<T>\<close>. \<^verbatim>\<open>as_uint64_t\<close> is declared outside the two source
  files; the overload chosen for \<^verbatim>\<open>T\<close> is a parameter, like \<^verbatim>\<open>sizeof(T)\<close>.
\<close>

definition getArgSize_T ::
  "size_t \<Rightarrow> ('a \<Rightarrow> 64 word) \<Rightarrow> ParamType \<Rightarrow> sizing \<Rightarrow> 'a \<Rightarrow> size_t \<times> sizing" where
  "getArgSize_T sizeof_T as_uint64_t fmtType st arg =
     (sizeof_T,
      if fmtType = DYNAMIC_PRECISION then st\<lparr>previousPrecision := as_uint64_t arg\<rparr> else st)"

text \<open>The \<^verbatim>\<open>const void*\<close> overload.\<close>

definition getArgSize_voidp :: "size_t \<Rightarrow> ParamType \<Rightarrow> sizing \<Rightarrow> 'p \<Rightarrow> size_t \<times> sizing" where
  "getArgSize_voidp sizeof_voidp fmtType st arg = (sizeof_voidp, st)"

text \<open>The \<^verbatim>\<open>const char*\<close> overload.\<close>

definition getArgSize_str :: "size_t \<Rightarrow> ParamType \<Rightarrow> sizing \<Rightarrow> char list \<Rightarrow> size_t \<times> sizing" where
  "getArgSize_str sizeof_voidp fmtType st str =
     (if fmtType \<le>s NON_STRING then (sizeof_voidp, st)
      else
        let st1 = st\<lparr>stringBytes := strlen str\<rparr>;
            fmtLength = fmtType;
            st2 = (if STRING \<le>s fmtType \<and> ucast fmtLength < stringBytes st1
                     then st1\<lparr>stringBytes := ucast fmtLength\<rparr>
                   else if fmtType = STRING_WITH_DYNAMIC_PRECISION
                           \<and> previousPrecision st1 < stringBytes st1
                     then st1\<lparr>stringBytes := previousPrecision st1\<rparr>
                   else st1)
        in (stringBytes st2 + 4, st2))"

text \<open>The \<^verbatim>\<open>const wchar_t*\<close> overload.\<close>

definition getArgSize_wstr ::
  "size_t \<Rightarrow> size_t \<Rightarrow> ParamType \<Rightarrow> sizing \<Rightarrow> 'w::len word list \<Rightarrow> size_t \<times> sizing" where
  "getArgSize_wstr sizeof_voidp sizeof_wchar_t fmtType st wstr =
     (if fmtType \<le>s NON_STRING then (sizeof_voidp, st)
      else
        let st1 = st\<lparr>stringBytes := wcslen wstr\<rparr>;
            fmtLength = fmtType;
            st2 = (if STRING \<le>s fmtType \<and> ucast fmtLength < stringBytes st1
                     then st1\<lparr>stringBytes := ucast fmtLength\<rparr>
                   else if fmtType = STRING_WITH_DYNAMIC_PRECISION
                           \<and> previousPrecision st1 < stringBytes st1
                     then st1\<lparr>stringBytes := previousPrecision st1\<rparr>
                   else st1);
            st3 = st2\<lparr>stringBytes := stringBytes st2 * sizeof_wchar_t\<rparr>
        in (stringBytes st3 + 4, st3))"

section \<open>Predicates of the proofs\<close>

text \<open>
  A character at which every inner loop and every optional part of a specifier stops: not
  a flag, not a digit, not a length modifier, neither \<^verbatim>\<open>*\<close> nor \<^verbatim>\<open>.\<close>.
\<close>

definition stops :: "char \<Rightarrow> bool" where
  "stops c \<longleftrightarrow> \<not> isFlag c \<and> \<not> isDigit c \<and> \<not> isLength c \<and> c \<noteq> CHR ''*'' \<and> c \<noteq> CHR ''.''"




section \<open>Termination\<close>

text \<open>
  A read that succeeds is inside the buffer, so the inner loops end at the end of the buffer
  at the latest; every specifier moves the position forward, so the outer loop ends.
\<close>

lemma at_Inr_lt: "at fmt pos = Inr c \<Longrightarrow> 0 \<le> pos \<and> pos < int (length fmt)"
  by (simp add: at_def split: if_splits)

termination consume
  by (relation "measure (\<lambda>(p, fmt, pos). nat (int (length fmt) - pos))")
     (auto dest: at_Inr_lt)

termination consume_precision
  by (relation "measure (\<lambda>(fmt, pos, precision). nat (int (length fmt) - pos))")
     (auto dest: at_Inr_lt)

declare consume.simps [simp del]
declare consume_precision.simps [simp del]

lemma consume_mono: "consume p fmt pos = Inr pos' \<Longrightarrow> pos \<le> pos'"
proof (induction p fmt pos rule: consume.induct)
  case (1 p fmt pos)
  from "1.prems" show ?case
    by (subst (asm) consume.simps) (auto split: sum.splits if_splits dest: "1.IH")
qed

lemma consume_precision_mono:
  "consume_precision fmt pos precision = Inr (pos', precision') \<Longrightarrow> pos \<le> pos'"
proof (induction fmt pos precision rule: consume_precision.induct)
  case (1 fmt pos precision)
  from "1.prems" show ?case
    by (subst (asm) consume_precision.simps) (auto split: sum.splits if_splits dest: "1.IH")
qed

lemma consume_width_mono: "consume_width fmt pos Params = Inr (pos', Params') \<Longrightarrow> pos \<le> pos'"
  by (auto simp: consume_width_def split: sum.splits if_splits dest: consume_mono)

lemma consume_dot_mono:
  "consume_dot fmt pos Params = Inr (pos', Params', h, pr) \<Longrightarrow> pos \<le> pos'"
  by (auto simp: consume_dot_def split: sum.splits if_splits dest: consume_precision_mono)

lemma consume_terminal_step:
  "consume_terminal fmt pos Params h pr = Inr (pos', Params') \<Longrightarrow> pos' = pos + 1"
  by (auto simp: consume_terminal_def Let_def split: sum.splits)

lemma specifier_progress: "specifier fmt pos Params = Inr (pos', Params') \<Longrightarrow> pos < pos'"
  unfolding specifier_def
  by (auto split: sum.splits prod.splits
      dest!: consume_mono consume_width_mono consume_dot_mono consume_terminal_step)

termination scan
  by (relation "measure (\<lambda>(fmt, N, pos, Params). nat (N - pos))")
     (auto dest: specifier_progress)

declare scan.simps [simp del]

section \<open>The classifier on the format strings of the specification\<close>

text \<open>
  C5: classified with the length of the string, \<^verbatim>\<open>"%d"\<close> gives \<^verbatim>\<open>[NON_STRING]\<close>,
  \<^verbatim>\<open>"%s"\<close> gives \<^verbatim>\<open>[STRING_WITH_NO_PRECISION]\<close>, \<^verbatim>\<open>"%.5s"\<close> gives the string of
  precision 5, \<^verbatim>\<open>"%.*s"\<close> gives \<^verbatim>\<open>[DYNAMIC_PRECISION, STRING_WITH_DYNAMIC_PRECISION]\<close>
  and \<^verbatim>\<open>"%*d"\<close> gives \<^verbatim>\<open>[DYNAMIC_WIDTH, NON_STRING]\<close>.
\<close>

theorem classify_examples:
  "getParamInfo (c_str ''%d'') 2 = Inr [NON_STRING]
   \<and> getParamInfo (c_str ''%s'') 2 = Inr [STRING_WITH_NO_PRECISION]
   \<and> getParamInfo (c_str ''%.5s'') 4 = Inr [STRING + 5]
   \<and> getParamInfo (c_str ''%.*s'') 4 = Inr [DYNAMIC_PRECISION, STRING_WITH_DYNAMIC_PRECISION]
   \<and> getParamInfo (c_str ''%*d'') 3 = Inr [DYNAMIC_WIDTH, NON_STRING]"
  by code_simp

text \<open>
  C1: the specification gives the one-element sequence \<^verbatim>\<open>[INVALID]\<close> for \<^verbatim>\<open>"%n"\<close> and
  for \<^verbatim>\<open>"%q"\<close>. The source pushes \<^verbatim>\<open>INVALID\<close> where it used to throw (\<open>Fail on %n
  specifiers\<close>; both \<^verbatim>\<open>throw\<close> statements are commented out) and, having no exit there,
  goes on to the test \<^verbatim>\<open>fmt[pos] != 's'\<close> and pushes \<^verbatim>\<open>NON_STRING\<close> for the same
  specifier. Both strings give \<^verbatim>\<open>[INVALID, NON_STRING]\<close>, and the entries of every later
  specifier move by one, as in \<^verbatim>\<open>"%n%s"\<close>.
\<close>

theorem invalid_then_non_string_examples:
  "getParamInfo (c_str ''%n'') 2 = Inr [INVALID, NON_STRING]
   \<and> getParamInfo (c_str ''%q'') 2 = Inr [INVALID, NON_STRING]
   \<and> getParamInfo (c_str ''%n%s'') 4 = Inr [INVALID, NON_STRING, STRING_WITH_NO_PRECISION]"
  by code_simp

section \<open>Argument sizes\<close>

text \<open>
  C4: the narrow string \<^verbatim>\<open>"hello world"\<close> measures 11 bytes. Sized as a string of
  precision 5, \<^verbatim>\<open>getArgSize\<close> writes 5 into \<^verbatim>\<open>stringBytes\<close> and returns 5 plus
  \<^verbatim>\<open>sizeof(uint32_t)\<close>; sized as \<^verbatim>\<open>STRING_WITH_NO_PRECISION\<close> it writes 11 and returns
  11 plus \<^verbatim>\<open>sizeof(uint32_t)\<close>.
\<close>

theorem hello_world_truncation:
  "strlen ''hello world'' = 11
   \<and> getArgSize_str sizeof_voidp (STRING + 5) st ''hello world''
       = (5 + 4, st\<lparr>stringBytes := 5\<rparr>)
   \<and> getArgSize_str sizeof_voidp STRING_WITH_NO_PRECISION st ''hello world''
       = (11 + 4, st\<lparr>stringBytes := 11\<rparr>)"
  by (simp add: getArgSize_str_def STRING_def NON_STRING_def STRING_WITH_NO_PRECISION_def
      STRING_WITH_DYNAMIC_PRECISION_def strlen_def Let_def word_sle_eq)

text \<open>
  C3: when a scalar argument whose value, widened by \<^verbatim>\<open>as_uint64_t\<close>, is 3 is sized
  with \<^verbatim>\<open>DYNAMIC_PRECISION\<close>, \<^verbatim>\<open>previousPrecision\<close> is set to 3; sizing the narrow
  string \<^verbatim>\<open>"hello"\<close> classified \<^verbatim>\<open>STRING_WITH_DYNAMIC_PRECISION\<close> in the state this
  leaves writes the content length 3 into \<^verbatim>\<open>stringBytes\<close> and returns 3 plus
  \<^verbatim>\<open>sizeof(uint32_t)\<close>.
\<close>

theorem dynamic_precision_threading:
  assumes "as_uint64_t arg = 3"
  shows "getArgSize_T sizeof_T as_uint64_t DYNAMIC_PRECISION st arg
           = (sizeof_T, st\<lparr>previousPrecision := 3\<rparr>)
         \<and> getArgSize_str sizeof_voidp STRING_WITH_DYNAMIC_PRECISION
              (snd (getArgSize_T sizeof_T as_uint64_t DYNAMIC_PRECISION st arg)) ''hello''
           = (3 + 4, st\<lparr>previousPrecision := 3, stringBytes := 3\<rparr>)"
  using assms
  by (simp add: getArgSize_T_def getArgSize_str_def STRING_def NON_STRING_def
      STRING_WITH_DYNAMIC_PRECISION_def DYNAMIC_PRECISION_def strlen_def Let_def word_sle_eq)

theorem dynamic_precision_threading_witness:
  "(scast (3 :: 32 word) :: 64 word) = 3
   \<and> getArgSize_T 4 scast DYNAMIC_PRECISION
        \<lparr>previousPrecision = 0, stringBytes = 0\<rparr> (3 :: 32 word)
       = (4, \<lparr>previousPrecision = 3, stringBytes = 0\<rparr>)
   \<and> getArgSize_str 8 STRING_WITH_DYNAMIC_PRECISION
        \<lparr>previousPrecision = 3, stringBytes = 0\<rparr> ''hello''
       = (3 + 4, \<lparr>previousPrecision = 3, stringBytes = 3\<rparr>)"
proof -
  have widened: "(scast (3 :: 32 word) :: 64 word) = 3" by simp
  from dynamic_precision_threading [of scast "3 :: 32 word", OF widened,
      of 4 "\<lparr>previousPrecision = 0, stringBytes = 0\<rparr>" 8] widened
  show ?thesis by auto
qed

text \<open>
  C9: for a scalar argument of type \<^verbatim>\<open>T\<close>, \<^verbatim>\<open>getArgSize\<close> returns \<^verbatim>\<open>sizeof(T)\<close> for
  every \<^verbatim>\<open>fmtType\<close> and never changes \<^verbatim>\<open>stringBytes\<close>; when \<^verbatim>\<open>fmtType\<close> is
  \<^verbatim>\<open>DYNAMIC_PRECISION\<close> it stores \<^verbatim>\<open>as_uint64_t(arg)\<close>, a 64-bit value, into
  \<^verbatim>\<open>previousPrecision\<close>, and for every other \<^verbatim>\<open>fmtType\<close> it leaves the whole state
  unchanged.
\<close>

theorem scalar_size_and_frame:
  "fst (getArgSize_T sizeof_T as_uint64_t fmtType st arg) = sizeof_T
   \<and> stringBytes (snd (getArgSize_T sizeof_T as_uint64_t fmtType st arg)) = stringBytes st
   \<and> (fmtType = DYNAMIC_PRECISION \<longrightarrow>
        previousPrecision (snd (getArgSize_T sizeof_T as_uint64_t fmtType st arg)) = as_uint64_t arg)
   \<and> (fmtType \<noteq> DYNAMIC_PRECISION \<longrightarrow>
        snd (getArgSize_T sizeof_T as_uint64_t fmtType st arg) = st)"
  by (simp add: getArgSize_T_def)

theorem scalar_size_and_frame_witness:
  "fst (getArgSize_T 4 ucast DYNAMIC_PRECISION
          \<lparr>previousPrecision = 0, stringBytes = 0\<rparr> (7 :: 32 word)) = 4
   \<and> previousPrecision (snd (getArgSize_T 4 ucast DYNAMIC_PRECISION
          \<lparr>previousPrecision = 0, stringBytes = 0\<rparr> (7 :: 32 word))) = 7
   \<and> snd (getArgSize_T 4 ucast NON_STRING
          \<lparr>previousPrecision = 0, stringBytes = 0\<rparr> (7 :: 32 word))
       = \<lparr>previousPrecision = 0, stringBytes = 0\<rparr>"
  using scalar_size_and_frame [of 4 ucast DYNAMIC_PRECISION
          "\<lparr>previousPrecision = 0, stringBytes = 0\<rparr>" "7 :: 32 word"]
        scalar_size_and_frame [of 4 ucast NON_STRING
          "\<lparr>previousPrecision = 0, stringBytes = 0\<rparr>" "7 :: 32 word"]
  by (simp add: DYNAMIC_PRECISION_def NON_STRING_def)

text \<open>
  C6: for a \<^verbatim>\<open>void*\<close> argument \<^verbatim>\<open>getArgSize\<close> returns \<^verbatim>\<open>sizeof(void*)\<close> for every
  \<^verbatim>\<open>fmtType\<close> and leaves the state as it was. For a narrow or a wide string whose
  \<^verbatim>\<open>fmtType\<close> is at or below \<^verbatim>\<open>NON_STRING\<close> (which \<^verbatim>\<open>INVALID\<close>, \<^verbatim>\<open>DYNAMIC_WIDTH\<close>,
  \<^verbatim>\<open>DYNAMIC_PRECISION\<close> and \<^verbatim>\<open>NON_STRING\<close> are) it returns \<^verbatim>\<open>sizeof(void*)\<close> as
  well, whatever the string holds, and leaves the state as it was.
\<close>

theorem pointer_width_size:
  "getArgSize_voidp sizeof_voidp fmtType st p = (sizeof_voidp, st)
   \<and> (fmtType \<le>s NON_STRING \<longrightarrow>
        getArgSize_str sizeof_voidp fmtType st str = (sizeof_voidp, st)
        \<and> getArgSize_wstr sizeof_voidp sizeof_wchar_t fmtType st wstr = (sizeof_voidp, st))
   \<and> (fmtType \<in> {INVALID, DYNAMIC_WIDTH, DYNAMIC_PRECISION, NON_STRING} \<longrightarrow>
        fmtType \<le>s NON_STRING)"
  by (auto simp: getArgSize_voidp_def getArgSize_str_def getArgSize_wstr_def
      INVALID_def DYNAMIC_WIDTH_def DYNAMIC_PRECISION_def NON_STRING_def word_sle_eq)

theorem pointer_width_size_witness:
  "INVALID \<le>s NON_STRING
   \<and> getArgSize_voidp 8 INVALID \<lparr>previousPrecision = 2, stringBytes = 1\<rparr> ()
       = (8, \<lparr>previousPrecision = 2, stringBytes = 1\<rparr>)
   \<and> getArgSize_str 8 INVALID \<lparr>previousPrecision = 2, stringBytes = 1\<rparr> ''hello''
       = (8, \<lparr>previousPrecision = 2, stringBytes = 1\<rparr>)
   \<and> getArgSize_wstr 8 4 INVALID \<lparr>previousPrecision = 2, stringBytes = 1\<rparr> [104, 105 :: 32 word]
       = (8, \<lparr>previousPrecision = 2, stringBytes = 1\<rparr>)"
  using pointer_width_size [of 8 INVALID "\<lparr>previousPrecision = 2, stringBytes = 1\<rparr>" "()"
          "''hello''" 4 "[104, 105 :: 32 word]"]
  by simp

lemma above_NON_STRING:
  assumes "\<not> fmtType \<le>s NON_STRING"
  shows "fmtType = STRING_WITH_DYNAMIC_PRECISION \<or> fmtType = STRING_WITH_NO_PRECISION
         \<or> STRING \<le>s fmtType"
proof -
  from assms have "- 3 < sint fmtType"
    by (simp add: word_sle_eq NON_STRING_def)
  then consider "sint fmtType = - 2" | "sint fmtType = - 1" | "0 \<le> sint fmtType"
    by linarith
  then show ?thesis
  proof cases
    case 1
    then have "sint fmtType = sint (- 2 :: 32 word)" by simp
    then have "fmtType = - 2" by (simp only: signed_word_eqI)
    then show ?thesis by (simp add: STRING_WITH_DYNAMIC_PRECISION_def)
  next
    case 2
    then have "sint fmtType = sint (- 1 :: 32 word)" by simp
    then have "fmtType = - 1" by (simp only: signed_word_eqI)
    then show ?thesis by (simp add: STRING_WITH_NO_PRECISION_def)
  next
    case 3
    then show ?thesis by (simp add: word_sle_eq STRING_def)
  qed
qed

text \<open>
  C8: for a wide string whose \<^verbatim>\<open>fmtType\<close> is above \<^verbatim>\<open>NON_STRING\<close>, the element count
  \<^verbatim>\<open>wcslen(wstr)\<close> is first truncated: to the precision of a string with a fixed
  precision, to \<^verbatim>\<open>previousPrecision\<close> for \<^verbatim>\<open>STRING_WITH_DYNAMIC_PRECISION\<close>, and not at
  all for \<^verbatim>\<open>STRING_WITH_NO_PRECISION\<close>. The truncated count times \<^verbatim>\<open>sizeof(wchar_t)\<close> is
  written into \<^verbatim>\<open>stringBytes\<close>, and the result is that byte count plus
  \<^verbatim>\<open>sizeof(uint32_t)\<close>.
\<close>

theorem wide_string_size:
  assumes "\<not> fmtType \<le>s NON_STRING"
  shows "getArgSize_wstr sizeof_voidp sizeof_wchar_t fmtType st wstr =
     (let count = (if fmtType = STRING_WITH_DYNAMIC_PRECISION
                     then min (wcslen wstr) (previousPrecision st)
                   else if fmtType = STRING_WITH_NO_PRECISION then wcslen wstr
                   else min (wcslen wstr) (ucast fmtType))
      in (count * sizeof_wchar_t + 4, st\<lparr>stringBytes := count * sizeof_wchar_t\<rparr>))"
proof -
  from above_NON_STRING [OF assms]
  consider "fmtType = STRING_WITH_DYNAMIC_PRECISION" | "fmtType = STRING_WITH_NO_PRECISION"
    | "STRING \<le>s fmtType" "fmtType \<noteq> STRING_WITH_DYNAMIC_PRECISION"
      "fmtType \<noteq> STRING_WITH_NO_PRECISION"
    by blast
  then show ?thesis
  proof cases
    case 1
    then show ?thesis
      by (auto simp: getArgSize_wstr_def Let_def min_def STRING_WITH_DYNAMIC_PRECISION_def
          NON_STRING_def STRING_def word_sle_eq)
  next
    case 2
    then show ?thesis
      by (simp add: getArgSize_wstr_def Let_def STRING_WITH_DYNAMIC_PRECISION_def
          STRING_WITH_NO_PRECISION_def NON_STRING_def STRING_def word_sle_eq)
  next
    case 3
    with assms show ?thesis
      by (auto simp: getArgSize_wstr_def Let_def min_def)
  qed
qed

theorem wide_string_size_witness:
  "\<not> (STRING + 2) \<le>s NON_STRING
   \<and> wcslen [104, 105, 106 :: 32 word] = 3
   \<and> getArgSize_wstr 8 4 (STRING + 2) \<lparr>previousPrecision = 0, stringBytes = 0\<rparr>
        [104, 105, 106 :: 32 word]
       = (2 * 4 + 4, \<lparr>previousPrecision = 0, stringBytes = 2 * 4\<rparr>)
   \<and> getArgSize_wstr 8 4 STRING_WITH_DYNAMIC_PRECISION \<lparr>previousPrecision = 1, stringBytes = 0\<rparr>
        [104, 105, 106 :: 32 word]
       = (1 * 4 + 4, \<lparr>previousPrecision = 1, stringBytes = 1 * 4\<rparr>)"
proof -
  have h1: "\<not> (STRING + 2) \<le>s NON_STRING"
    by (simp add: STRING_def NON_STRING_def word_sle_eq)
  have h2: "\<not> STRING_WITH_DYNAMIC_PRECISION \<le>s NON_STRING"
    by (simp add: STRING_WITH_DYNAMIC_PRECISION_def NON_STRING_def word_sle_eq)
  have len: "wcslen [104, 105, 106 :: 32 word] = 3"
    by (simp add: wcslen_def)
  show ?thesis
    using h1 len
      wide_string_size [OF h1, of 8 4 "\<lparr>previousPrecision = 0, stringBytes = 0\<rparr>"
        "[104, 105, 106 :: 32 word]"]
      wide_string_size [OF h2, of 8 4 "\<lparr>previousPrecision = 1, stringBytes = 0\<rparr>"
        "[104, 105, 106 :: 32 word]"]
    by (simp add: STRING_def STRING_WITH_DYNAMIC_PRECISION_def STRING_WITH_NO_PRECISION_def)
qed

section \<open>Bounds of the reads\<close>

lemma at_in_range: "0 \<le> pos \<Longrightarrow> pos < int (length fmt) \<Longrightarrow> at fmt pos = Inr (fmt ! nat pos)"
  by (simp add: at_def)

lemma consume_safe:
  "0 \<le> pos \<Longrightarrow> pos \<le> k \<Longrightarrow> k < int (length fmt) \<Longrightarrow> \<not> p (fmt ! nat k)
   \<Longrightarrow> \<exists>pos'. consume p fmt pos = Inr pos' \<and> pos \<le> pos' \<and> pos' \<le> k"
proof (induction p fmt pos rule: consume.induct)
  case (1 p fmt pos)
  have rd: "at fmt pos = Inr (fmt ! nat pos)"
    using "1.prems" by (simp add: at_in_range)
  show ?case
  proof (cases "p (fmt ! nat pos)")
    case True
    with "1.prems" have "pos \<noteq> k" by auto
    with "1.prems" have "pos + 1 \<le> k" by simp
    with "1.IH" [OF rd True] "1.prems"
    obtain pos' where "consume p fmt (pos + 1) = Inr pos'" "pos + 1 \<le> pos'" "pos' \<le> k"
      by auto
    with rd True show ?thesis
      by (subst consume.simps) simp
  next
    case False
    with rd "1.prems" show ?thesis
      by (subst consume.simps) simp
  qed
qed

lemma consume_precision_safe:
  "0 \<le> pos \<Longrightarrow> pos \<le> k \<Longrightarrow> k < int (length fmt) \<Longrightarrow> \<not> isDigit (fmt ! nat k)
   \<Longrightarrow> \<exists>pos' pr. consume_precision fmt pos precision = Inr (pos', pr) \<and> pos \<le> pos' \<and> pos' \<le> k"
proof (induction fmt pos precision rule: consume_precision.induct)
  case (1 fmt pos precision)
  have rd: "at fmt pos = Inr (fmt ! nat pos)"
    using "1.prems" by (simp add: at_in_range)
  show ?case
  proof (cases "isDigit (fmt ! nat pos)")
    case True
    with "1.prems" have "pos \<noteq> k" by auto
    with "1.prems" have le: "pos + 1 \<le> k" by simp
    from "1.IH" [OF rd True] le "1.prems"
    obtain pos' pr where
      "consume_precision fmt (pos + 1)
         (10 * precision + (of_char (fmt ! nat pos) - of_char (CHR ''0''))) = Inr (pos', pr)"
      "pos + 1 \<le> pos'" "pos' \<le> k"
      by auto
    with rd True show ?thesis
      by (subst consume_precision.simps) simp
  next
    case False
    with rd "1.prems" show ?thesis
      by (subst consume_precision.simps) simp
  qed
qed

lemma consume_width_safe:
  assumes "0 \<le> pos" "pos \<le> k" "k < int (length fmt)" "stops (fmt ! nat k)"
  shows "\<exists>pos' Params'. consume_width fmt pos Params = Inr (pos', Params') \<and> pos \<le> pos' \<and> pos' \<le> k"
proof -
  have rd: "at fmt pos = Inr (fmt ! nat pos)"
    using assms by (simp add: at_in_range)
  show ?thesis
  proof (cases "fmt ! nat pos = CHR ''*''")
    case True
    with assms have "pos \<noteq> k" by (auto simp: stops_def)
    with assms True rd show ?thesis by (simp add: consume_width_def)
  next
    case False
    from assms have "\<not> isDigit (fmt ! nat k)" by (simp add: stops_def)
    from consume_safe [where p = isDigit, OF assms(1,2,3) this]
    obtain pos' where "consume isDigit fmt pos = Inr pos'" "pos \<le> pos'" "pos' \<le> k" by blast
    with False rd show ?thesis by (simp add: consume_width_def)
  qed
qed

lemma consume_dot_safe:
  assumes "0 \<le> pos" "pos \<le> k" "k < int (length fmt)" "stops (fmt ! nat k)"
  shows "\<exists>pos' Params' h pr. consume_dot fmt pos Params = Inr (pos', Params', h, pr)
            \<and> pos \<le> pos' \<and> pos' \<le> k"
proof -
  have rd: "at fmt pos = Inr (fmt ! nat pos)"
    using assms by (simp add: at_in_range)
  show ?thesis
  proof (cases "fmt ! nat pos = CHR ''.''")
    case dot: True
    with assms have "pos \<noteq> k" by (auto simp: stops_def)
    with assms have le1: "pos + 1 \<le> k" by simp
    with assms have rd1: "at fmt (pos + 1) = Inr (fmt ! nat (pos + 1))"
      by (simp add: at_in_range)
    show ?thesis
    proof (cases "fmt ! nat (pos + 1) = CHR ''*''")
      case True
      with assms have "pos + 1 \<noteq> k" by (auto simp: stops_def)
      with le1 dot True rd rd1 show ?thesis by (auto simp: consume_dot_def)
    next
      case False
      from assms have nd: "\<not> isDigit (fmt ! nat k)" by (simp add: stops_def)
      from assms have "0 \<le> pos + 1" by simp
      from consume_precision_safe [OF this le1 assms(3) nd, of 0]
      obtain pos' pr where "consume_precision fmt (pos + 1) 0 = Inr (pos', pr)"
        "pos + 1 \<le> pos'" "pos' \<le> k" by blast
      with dot False rd rd1 show ?thesis by (auto simp: consume_dot_def)
    qed
  next
    case False
    with rd assms show ?thesis by (auto simp: consume_dot_def)
  qed
qed

lemma consume_terminal_safe:
  assumes "0 \<le> pos" "pos < int (length fmt)"
  shows "\<exists>Params'. consume_terminal fmt pos Params h pr = Inr (pos + 1, Params')"
  using assms by (simp add: consume_terminal_def at_in_range Let_def)

lemma specifier_safe:
  assumes "0 \<le> pos" "pos \<le> k" "k < int (length fmt)" "stops (fmt ! nat k)"
  shows "\<exists>pos' Params'. specifier fmt pos Params = Inr (pos', Params')"
proof -
  from assms have nf: "\<not> isFlag (fmt ! nat k)" and nl: "\<not> isLength (fmt ! nat k)"
    by (simp_all add: stops_def)
  from consume_safe [where p = isFlag, OF assms(1,2,3) nf]
  obtain pos1 where 1: "consume isFlag fmt pos = Inr pos1" "pos \<le> pos1" "pos1 \<le> k" by blast
  from assms 1 have "0 \<le> pos1" by simp
  from consume_width_safe [OF this 1(3) assms(3,4), of Params]
  obtain pos2 Params2 where 2: "consume_width fmt pos1 Params = Inr (pos2, Params2)"
      "pos1 \<le> pos2" "pos2 \<le> k" by blast
  from assms 1 2 have p2: "0 \<le> pos2" by simp
  from consume_dot_safe [OF p2 2(3) assms(3,4), of Params2]
  obtain pos3 Params3 h pr where 3: "consume_dot fmt pos2 Params2 = Inr (pos3, Params3, h, pr)"
    "pos2 \<le> pos3" "pos3 \<le> k" by blast
  from p2 3 have p3: "0 \<le> pos3" by simp
  from consume_safe [where p = isLength, OF p3 3(3) assms(3) nl]
  obtain pos4 where 4: "consume isLength fmt pos3 = Inr pos4" "pos3 \<le> pos4" "pos4 \<le> k" by blast
  from p3 4 assms have "0 \<le> pos4" "pos4 < int (length fmt)" by simp_all
  from consume_terminal_safe [OF this, of Params3 h pr]
  obtain Params' where "consume_terminal fmt pos4 Params3 h pr = Inr (pos4 + 1, Params')" by blast
  with 1 2 3 4 show ?thesis by (simp add: specifier_def)
qed

lemma scan_safe:
  "0 \<le> pos \<Longrightarrow> N - 1 \<le> k \<Longrightarrow> k < int (length fmt) \<Longrightarrow> stops (fmt ! nat k)
   \<Longrightarrow> \<exists>Params'. scan fmt N pos Params = Inr Params'"
proof (induction fmt N pos Params rule: scan.induct)
  case (1 fmt N pos Params)
  show ?case
  proof (cases "pos < N - 1")
    case False
    then show ?thesis by (subst scan.simps) simp
  next
    case in_loop: True
    with "1.prems" have rd: "at fmt pos = Inr (fmt ! nat pos)"
      and rd1: "at fmt (pos + 1) = Inr (fmt ! nat (pos + 1))"
      by (simp_all add: at_in_range)
    show ?thesis
    proof (cases "fmt ! nat pos \<noteq> CHR ''%''")
      case True
      from "1.IH"(1) [OF in_loop rd True] "1.prems"
      have "\<exists>Params'. scan fmt N (pos + 1) Params = Inr Params'" by simp
      with in_loop rd True show ?thesis by (subst scan.simps) simp
    next
      case pct: False
      show ?thesis
      proof (cases "fmt ! nat (pos + 1) = CHR ''%''")
        case True
        from "1.IH"(2) [OF in_loop rd pct rd1 True] "1.prems"
        have "\<exists>Params'. scan fmt N (pos + 1 + 1) Params = Inr Params'" by simp
        with in_loop rd rd1 pct True show ?thesis by (subst scan.simps) simp
      next
        case False
        from "1.prems" in_loop have "0 \<le> pos + 1" "pos + 1 \<le> k" by simp_all
        from specifier_safe [OF this "1.prems"(3,4), of Params]
        obtain pos' Params' where sp: "specifier fmt (pos + 1) Params = Inr (pos', Params')"
          by blast
        from specifier_progress [OF sp] "1.prems" have "0 \<le> pos'" by simp
        from "1.IH"(3) [OF in_loop rd pct rd1 False sp refl this "1.prems"(2,3,4)]
        have "\<exists>Ps. scan fmt N pos' Params' = Inr Ps" .
        with in_loop rd rd1 pct False sp show ?thesis by (subst scan.simps) simp
      qed
    qed
  qed
qed

lemma stops_NUL: "stops (CHR 0x00)"
  by (simp add: stops_def isFlag_def isDigit_def isLength_def)

lemma stops_percent: "stops (CHR ''%'')"
  by (simp add: stops_def isFlag_def isDigit_def isLength_def)

text \<open>
  C2 (as stated): \<^verbatim>\<open>getParamInfo(fmt, N)\<close> reads only the characters at the indices
  \<open>0 .. N - 1\<close>. For \<^verbatim>\<open>"%5"\<close> and \<open>N = 2\<close> the loop over the digits of the width reads
  \<^verbatim>\<open>fmt[2]\<close>: in a buffer that holds the two characters and nothing else, that read is
  outside; in the C string it reads the terminator, which is not a terminal, and the call
  returns \<^verbatim>\<open>[INVALID, NON_STRING]\<close>.
\<close>

theorem reads_terminator_counterexample:
  "getParamInfo ''%5'' 2 = Inl (OutOfBounds 2)
   \<and> getParamInfo (c_str ''%5'') 2 = Inr [INVALID, NON_STRING]"
  by code_simp

text \<open>
  C2 (amended): for every NUL-terminated format string of length \<open>N\<close>,
  \<^verbatim>\<open>getParamInfo(fmt, N)\<close> terminates and reads only the indices \<open>0 .. N\<close>, the last of
  which holds the terminator: in the buffer of the \<open>N\<close> characters and the NUL, where any
  other read is the error \<open>OutOfBounds\<close>, it returns a sequence. A format string that ends
  in \<^verbatim>\<open>%\<close> is scanned reading only the indices \<open>0 .. N - 1\<close>: in the buffer of its \<open>N\<close>
  characters alone, it returns a sequence.
\<close>

theorem reads_within_terminator:
  "(\<exists>Params. getParamInfo (c_str s) (int (length s)) = Inr Params)
   \<and> (\<exists>Params. getParamInfo (s @ ''%'') (int (length s) + 1) = Inr Params)"
proof -
  have "\<exists>Params. scan (c_str s) (int (length s)) 0 [] = Inr Params"
    by (rule scan_safe [where k = "int (length s)"]) (simp_all add: c_str_def stops_NUL)
  moreover
  have "\<exists>Params. scan (s @ ''%'') (int (length s) + 1) 0 [] = Inr Params"
    by (rule scan_safe [where k = "int (length s)"]) (simp_all add: stops_percent)
  ultimately show ?thesis
    by (simp add: getParamInfo_def)
qed

section \<open>Format strings without specifiers\<close>

lemma scan_no_percent:
  "0 \<le> pos \<Longrightarrow> (\<And>j. pos \<le> j \<Longrightarrow> j < N - 1 \<Longrightarrow> j < int (length fmt) \<and> fmt ! nat j \<noteq> CHR ''%'')
   \<Longrightarrow> scan fmt N pos Params = Inr Params"
proof (induction fmt N pos Params rule: scan.induct)
  case (1 fmt N pos Params)
  show ?case
  proof (cases "pos < N - 1")
    case False
    then show ?thesis by (subst scan.simps) simp
  next
    case True
    with "1.prems"(2) [of pos] have here: "pos < int (length fmt)" "fmt ! nat pos \<noteq> CHR ''%''"
      by simp_all
    with "1.prems"(1) have rd: "at fmt pos = Inr (fmt ! nat pos)"
      by (simp add: at_in_range)
    have "scan fmt N (pos + 1) Params = Inr Params"
    proof (rule "1.IH"(1) [OF True rd here(2)])
      show "0 \<le> pos + 1" using "1.prems"(1) by simp
      show "j < int (length fmt) \<and> fmt ! nat j \<noteq> CHR ''%''" if "pos + 1 \<le> j" "j < N - 1" for j
        using that "1.prems"(2) [of j] by simp
    qed
    with True rd here(2) show ?thesis by (subst scan.simps) simp
  qed
qed

text \<open>
  C10: a format string in which no \<^verbatim>\<open>%\<close> occurs classifies to the empty sequence,
  whatever follows it in memory. An occurrence of \<^verbatim>\<open>%%\<close> is a \<^verbatim>\<open>%\<close> that the loop
  meets where a specifier may start, followed by a second \<^verbatim>\<open>%\<close>: there the loop goes
  on two characters further with the parameters it had, so the pair adds no entry.
  Classifying \<^verbatim>\<open>"%%"\<close> gives the empty sequence.
\<close>

theorem literal_percent:
  "(CHR ''%'' \<notin> set s \<longrightarrow> getParamInfo (s @ rest) (int (length s)) = Inr [])
   \<and> (pos < N - 1 \<and> at fmt pos = Inr (CHR ''%'') \<and> at fmt (pos + 1) = Inr (CHR ''%'')
        \<longrightarrow> scan fmt N pos Params = scan fmt N (pos + 2) Params)
   \<and> getParamInfo (c_str ''%%'') 2 = Inr []"
proof (intro conjI impI)
  assume no: "CHR ''%'' \<notin> set s"
  have "scan (s @ rest) (int (length s)) 0 [] = Inr []"
  proof (rule scan_no_percent)
    show "j < int (length (s @ rest)) \<and> (s @ rest) ! nat j \<noteq> CHR ''%''"
      if "0 \<le> j" "j < int (length s) - 1" for j
    proof -
      from that have lt: "nat j < length s" by simp
      then have "s ! nat j \<in> set s" by simp
      with no have "s ! nat j \<noteq> CHR ''%''" by metis
      with lt that show ?thesis by (simp add: nth_append)
    qed
  qed simp
  then show "getParamInfo (s @ rest) (int (length s)) = Inr []"
    by (simp add: getParamInfo_def)
next
  assume "pos < N - 1 \<and> at fmt pos = Inr (CHR ''%'') \<and> at fmt (pos + 1) = Inr (CHR ''%'')"
  then show "scan fmt N pos Params = scan fmt N (pos + 2) Params"
    by (subst scan.simps) (simp add: add.assoc)
next
  show "getParamInfo (c_str ''%%'') 2 = Inr []"
    by code_simp
qed

theorem literal_percent_witness:
  "CHR ''%'' \<notin> set ''hello {}!''
   \<and> getParamInfo (c_str ''hello {}!'') 9 = Inr []
   \<and> at (c_str ''a%%%d'') 1 = Inr (CHR ''%'') \<and> at (c_str ''a%%%d'') 2 = Inr (CHR ''%'')
   \<and> scan (c_str ''a%%%d'') 5 1 [] = scan (c_str ''a%%%d'') 5 3 []
   \<and> scan (c_str ''a%%%d'') 5 3 [] = Inr [NON_STRING]"
proof -
  have a: "CHR ''%'' \<notin> set ''hello {}!''" by simp
  have b: "(1::int) < 5 - 1 \<and> at (c_str ''a%%%d'') 1 = Inr (CHR ''%'')
           \<and> at (c_str ''a%%%d'') (1 + 1) = Inr (CHR ''%'')"
    by (simp add: at_def c_str_def)
  have c: "scan (c_str ''a%%%d'') 5 3 [] = Inr [NON_STRING]" by code_simp
  from literal_percent [of "''hello {}!''" "[CHR 0x00]" 1 5 "c_str ''a%%%d''" "[]"] a b c
  show ?thesis by (simp add: c_str_def)
qed

section \<open>Invalid entries\<close>


















end
